theory Spec2Isabelle
  imports Main "HOL-Library.Sublist"
begin

section \<open>The tauri-driver supervisor of \<^verbatim>\<open>tests/e2e/wdio.conf.ts\<close>\<close>

text \<open>
  The WebdriverIO configuration starts the external \<^verbatim>\<open>tauri-driver\<close> binary in its
  \<^verbatim>\<open>onPrepare\<close> hook and stops it in \<^verbatim>\<open>onComplete\<close>. The hooks are callbacks on an
  event loop: \<^verbatim>\<open>onPrepare\<close> spawns the child, attaches three listeners, arms one timer
  and returns a promise; everything after that happens when the runtime delivers an
  event. The embedding keeps the module-level variable \<^verbatim>\<open>tauriDriver\<close>, one entry per
  call of \<^verbatim>\<open>onPrepare\<close> (its promise, its child process, the listeners on that child,
  its timer), the console, and the \<^verbatim>\<open>kill()\<close> requests issued. The runtime is the
  environment: it delivers events in any order, and every theorem below quantifies
  over the event sequences.
\<close>

subsection \<open>Values of the runtime\<close>

text \<open>An \<^verbatim>\<open>Error\<close> object, identified by its message.\<close>

datatype js_error = Error string

text \<open>
  A promise is pending, fulfilled (\<^verbatim>\<open>Promise<void>\<close>: no value) or rejected with a
  reason. \<^verbatim>\<open>resolve\<close> and \<^verbatim>\<open>reject\<close> settle a pending promise and do nothing to a
  settled one.
\<close>

datatype promise = Pending | Fulfilled | Rejected js_error

fun resolve_promise :: "promise \<Rightarrow> promise" where
  "resolve_promise Pending = Fulfilled"
| "resolve_promise p = p"

fun reject_promise :: "js_error \<Rightarrow> promise \<Rightarrow> promise" where
  "reject_promise e Pending = Rejected e"
| "reject_promise e p = p"

text \<open>
  \<^verbatim>\<open>String.prototype.includes\<close>: the argument occurs somewhere in the string.
  A chunk is modelled after \<^verbatim>\<open>data.toString()\<close>, as the decoded text.
\<close>

fun str_includes :: "string \<Rightarrow> string \<Rightarrow> bool" where
  "str_includes [] sub = (sub = [])"
| "str_includes (c # cs) sub = (prefix sub (c # cs) \<or> str_includes cs sub)"

text \<open>The calls of \<^verbatim>\<open>console.log\<close> and \<^verbatim>\<open>console.error\<close>, with their arguments.\<close>

datatype console_arg = Str string | Err js_error

datatype console_call = console_log "console_arg list" | console_error "console_arg list"

text \<open>
  The events a listener can be attached to: \<^verbatim>\<open>'data'\<close> on the child's standard output,
  \<^verbatim>\<open>'data'\<close> on its standard error, and \<^verbatim>\<open>'error'\<close> and \<^verbatim>\<open>'exit'\<close> on the child itself.
\<close>

datatype channel = stdout_data | stderr_data | error | exit

subsection \<open>State\<close>

text \<open>
  One entry per call of \<^verbatim>\<open>onPrepare\<close>. The child spawned by call number \<open>c\<close> is
  identified by \<open>c\<close>. \<open>spawned\<close> says that \<^verbatim>\<open>spawn\<close> returned a \<^verbatim>\<open>ChildProcess\<close> handle,
  \<open>has_process\<close> that the operating system created a process for it. \<open>exit_code\<close> is
  the exit status reported for the child, absent until an \<^verbatim>\<open>'exit'\<close>; \<open>timer\<close> is the delay of the timeout while it is pending and
  \<open>None\<close> once it has fired (a \<^verbatim>\<open>setTimeout\<close> timer fires once).
\<close>

record call =
  promise :: promise
  spawned :: bool
  has_process :: bool
  exit_code :: "int option"
  listeners :: "channel list"
  timer :: "nat option"

record state =
  tauriDriver :: "nat option"
  calls :: "call list"
  console :: "console_call list"
  kills :: "nat list"

text \<open>The module has just been loaded: \<^verbatim>\<open>let tauriDriver: ChildProcess | null = null\<close>.\<close>

definition init :: state where
  "init = \<lparr>tauriDriver = None, calls = [], console = [], kills = []\<rparr>"

definition upd_call :: "nat \<Rightarrow> (call \<Rightarrow> call) \<Rightarrow> state \<Rightarrow> state" where
  "upd_call c f s = s\<lparr>calls := (calls s)[c := f (calls s ! c)]\<rparr>"

text \<open>The \<^verbatim>\<open>resolve\<close> and \<^verbatim>\<open>reject\<close> functions handed to the executor of call \<open>c\<close>.\<close>

definition resolve :: "nat \<Rightarrow> state \<Rightarrow> state" where
  "resolve c s = upd_call c (\<lambda>k. k\<lparr>promise := resolve_promise (promise k)\<rparr>) s"

definition reject :: "nat \<Rightarrow> js_error \<Rightarrow> state \<Rightarrow> state" where
  "reject c e s = upd_call c (\<lambda>k. k\<lparr>promise := reject_promise e (promise k)\<rparr>) s"

text \<open>\<^verbatim>\<open>emitter.on(event, listener)\<close> and \<^verbatim>\<open>setTimeout(callback, delay)\<close> for call \<open>c\<close>.\<close>

definition on :: "nat \<Rightarrow> channel \<Rightarrow> state \<Rightarrow> state" where
  "on c ch s = upd_call c (\<lambda>k. k\<lparr>listeners := listeners k @ [ch]\<rparr>) s"

definition setTimeout :: "nat \<Rightarrow> nat \<Rightarrow> state \<Rightarrow> state" where
  "setTimeout c delay s = upd_call c (\<lambda>k. k\<lparr>timer := Some delay\<rparr>) s"

subsection \<open>The callbacks of \<^verbatim>\<open>onPrepare\<close>\<close>

text \<open>
  \<^verbatim>\<open>
  tauriDriver.stdout?.on('data', (data) => {
    const output = data.toString();
    if (output.includes('Listening on')) {
      console.log('[tauri-driver] Started');
      resolve();
    }
  });
  \<close>
\<close>

definition on_stdout_data :: "nat \<Rightarrow> string \<Rightarrow> state \<Rightarrow> state" where
  "on_stdout_data c output s =
     (if str_includes output ''Listening on''
      then resolve c (s\<lparr>console := console s @ [console_log [Str ''[tauri-driver] Started'']]\<rparr>)
      else s)"

text \<open>
  \<^verbatim>\<open>
  tauriDriver.stderr?.on('data', (data) => {
    console.error('[tauri-driver]', data.toString());
  });
  \<close>
\<close>

definition on_stderr_data :: "nat \<Rightarrow> string \<Rightarrow> state \<Rightarrow> state" where
  "on_stderr_data c output s =
     s\<lparr>console := console s @ [console_error [Str ''[tauri-driver]'', Str output]]\<rparr>"

text \<open>
  \<^verbatim>\<open>
  tauriDriver.on('error', (err) => {
    console.error('[tauri-driver] Failed to start:', err);
    reject(err);
  });
  \<close>
\<close>

definition on_error :: "nat \<Rightarrow> js_error \<Rightarrow> state \<Rightarrow> state" where
  "on_error c err s =
     reject c err
       (s\<lparr>console := console s @ [console_error [Str ''[tauri-driver] Failed to start:'', Err err]]\<rparr>)"

text \<open>
  \<^verbatim>\<open>
  setTimeout(() => {
    reject(new Error('tauri-driver startup timeout'));
  }, 30000);
  \<close>
\<close>

definition on_timeout :: "nat \<Rightarrow> state \<Rightarrow> state" where
  "on_timeout c s = reject c (Error ''tauri-driver startup timeout'') s"

subsection \<open>\<^verbatim>\<open>onPrepare\<close> and \<^verbatim>\<open>onComplete\<close>\<close>

text \<open>
  \<^verbatim>\<open>spawn\<close> either returns a \<^verbatim>\<open>ChildProcess\<close> or throws. When it returns, the operating
  system has either created the process (\<open>Spawned True\<close>) or refused to (\<open>Spawned False\<close>:
  the binary is missing or not executable); in the second case the handle has no
  process behind it, and the runtime reports the failure later, by an \<^verbatim>\<open>'error'\<close>
  event. The code cannot tell the two apart when \<^verbatim>\<open>spawn\<close> returns and runs the same
  statements. A throw inside the executor rejects the new promise with what was
  thrown, and the rest of the executor, the assignment to \<^verbatim>\<open>tauriDriver\<close> included, is
  not run.
\<close>

datatype spawn_result = Spawned bool | SpawnThrew js_error

definition new_call :: call where
  "new_call = \<lparr>promise = Pending, spawned = False, has_process = False, exit_code = None,
                listeners = [], timer = None\<rparr>"

text \<open>
  \<^verbatim>\<open>
  onPrepare: async function () {
    return new Promise<void>((resolve, reject) => {
      tauriDriver = spawn('tauri-driver', [], { stdio: ['ignore', 'pipe', 'pipe'] });
      tauriDriver.stdout?.on('data', ...);
      tauriDriver.stderr?.on('data', ...);
      tauriDriver.on('error', ...);
      setTimeout(..., 30000);
    });
  }
  \<close>
  Both output streams are pipes, so \<^verbatim>\<open>stdout\<close> and \<^verbatim>\<open>stderr\<close> are present and the
  optional chaining always attaches the listener. Nothing looks at the old value of
  \<^verbatim>\<open>tauriDriver\<close>. The promise of the \<^verbatim>\<open>async\<close> function settles as the promise it
  returns does, so the two are one entry.
\<close>

definition onPrepare :: "spawn_result \<Rightarrow> state \<Rightarrow> state" where
  "onPrepare r s =
     (let c = length (calls s);
          s0 = s\<lparr>calls := calls s @ [new_call]\<rparr>
      in case r of
           SpawnThrew e \<Rightarrow> reject c e s0
         | Spawned p \<Rightarrow>
             (let s1 = (upd_call c (\<lambda>k. k\<lparr>spawned := True, has_process := p\<rparr>) s0)
                         \<lparr>tauriDriver := Some c\<rparr>;
                  s2 = on c stdout_data s1;
                  s3 = on c stderr_data s2;
                  s4 = on c error s3
              in setTimeout c 30000 s4))"

text \<open>
  \<^verbatim>\<open>
  onComplete: async function () {
    if (tauriDriver) {
      tauriDriver.kill();
      tauriDriver = null;
    }
  }
  \<close>
  \<^verbatim>\<open>kill()\<close> sends the signal and returns a boolean; on a process that is already gone
  it returns \<^verbatim>\<open>false\<close>. The request is recorded in \<open>kills\<close>.
\<close>

definition onComplete :: "state \<Rightarrow> state" where
  "onComplete s =
     (case tauriDriver s of
        Some p \<Rightarrow> s\<lparr>kills := kills s @ [p], tauriDriver := None\<rparr>
      | None \<Rightarrow> s)"

subsection \<open>The event loop\<close>

text \<open>
  What a child process can emit, and the delivery of one emission to the listener
  attached for it, if there is one. An \<^verbatim>\<open>'exit'\<close> sets the exit status of the process;
  the code attaches no listener for it, so no callback of the code runs.
\<close>

datatype emitted = StdoutData string | StderrData string | ErrorEvent js_error | Exit int

fun channel_of :: "emitted \<Rightarrow> channel" where
  "channel_of (StdoutData d) = stdout_data"
| "channel_of (StderrData d) = stderr_data"
| "channel_of (ErrorEvent e) = error"
| "channel_of (Exit n) = exit"

fun listener :: "nat \<Rightarrow> emitted \<Rightarrow> state \<Rightarrow> state" where
  "listener c (StdoutData d) s = on_stdout_data c d s"
| "listener c (StderrData d) s = on_stderr_data c d s"
| "listener c (ErrorEvent e) s = on_error c e s"
| "listener c (Exit n) s = s"

definition set_exit :: "nat \<Rightarrow> emitted \<Rightarrow> state \<Rightarrow> state" where
  "set_exit c ev s =
     (case ev of
        Exit n \<Rightarrow> upd_call c (\<lambda>k. if exit_code k = None then k\<lparr>exit_code := Some n\<rparr> else k) s
      | _ \<Rightarrow> s)"

definition emit :: "nat \<Rightarrow> emitted \<Rightarrow> state \<Rightarrow> state" where
  "emit c ev s =
     (if c < length (calls s) \<and> spawned (calls s ! c)
      then (let s' = set_exit c ev s
            in if channel_of ev \<in> set (listeners (calls s' ! c)) then listener c ev s' else s')
      else s)"

text \<open>The timer of call \<open>c\<close> fires, if it is pending: its callback runs, once.\<close>

definition fire_timer :: "nat \<Rightarrow> state \<Rightarrow> state" where
  "fire_timer c s =
     (if c < length (calls s) \<and> timer (calls s ! c) \<noteq> None
      then on_timeout c (upd_call c (\<lambda>k. k\<lparr>timer := None\<rparr>) s)
      else s)"

text \<open>
  One turn of the event loop: the test runner calls a hook, a child emits, or a timer
  fires. A run is a sequence of turns.
\<close>

datatype action = Start spawn_result | Stop | Emit nat emitted | TimerFire nat

fun step :: "action \<Rightarrow> state \<Rightarrow> state" where
  "step (Start r) s = onPrepare r s"
| "step Stop s = onComplete s"
| "step (Emit c ev) s = emit c ev s"
| "step (TimerFire c) s = fire_timer c s"

definition run :: "action list \<Rightarrow> state \<Rightarrow> state" where
  "run as s = fold step as s"

text \<open>
  Observations: the promise returned by call \<open>c\<close>, and the operating-system processes.
  A child is alive when a process was created for its handle and no exit has been
  reported; \<open>spawn_count\<close> counts the processes created. A handle whose launch failed
  has no process and counts in neither.
\<close>

definition outcome :: "state \<Rightarrow> nat \<Rightarrow> promise" where
  "outcome s c = promise (calls s ! c)"

definition alive :: "call \<Rightarrow> bool" where
  "alive k = (spawned k \<and> has_process k \<and> exit_code k = None)"

definition spawn_count :: "state \<Rightarrow> nat" where
  "spawn_count s = length (filter has_process (calls s))"

definition alive_count :: "state \<Rightarrow> nat" where
  "alive_count s = length (filter alive (calls s))"

text \<open>
  Classifying the turns of a run, for the call \<open>c\<close> under observation: a chunk on the
  standard output of its child that holds the marker, an \<^verbatim>\<open>'error'\<close> event of its
  child, and a chunk on any child's standard error.
\<close>

fun ready_chunk :: "nat \<Rightarrow> action \<Rightarrow> bool" where
  "ready_chunk c (Emit d (StdoutData output)) = (d = c \<and> str_includes output ''Listening on'')"
| "ready_chunk c a = False"

fun error_event :: "nat \<Rightarrow> action \<Rightarrow> bool" where
  "error_event c (Emit d (ErrorEvent e)) = (d = c)"
| "error_event c a = False"

fun stderr_chunk :: "action \<Rightarrow> bool" where
  "stderr_chunk (Emit d (StderrData output)) = True"
| "stderr_chunk a = False"

text \<open>
  The life cycles in which the hooks take turns: \<^verbatim>\<open>onPrepare\<close> is not called while
  \<^verbatim>\<open>tauriDriver\<close> holds a child (\<open>held\<close>), that is, never twice without an
  \<^verbatim>\<open>onComplete\<close> in between. Any events may come in between.
\<close>

fun alternating :: "bool \<Rightarrow> action list \<Rightarrow> bool" where
  "alternating held [] = True"
| "alternating held (Start (Spawned p) # as) = (\<not> held \<and> alternating True as)"
| "alternating held (Start (SpawnThrew e) # as) = alternating held as"
| "alternating held (Stop # as) = alternating False as"
| "alternating held (Emit c ev # as) = alternating held as"
| "alternating held (TimerFire c # as) = alternating held as"

section \<open>Properties\<close>

subsection \<open>Runs and the list of calls\<close>

lemma run_Nil [simp]: "run [] s = s"
  by (simp add: run_def)

lemma run_Cons [simp]: "run (a # as) s = run as (step a s)"
  by (simp add: run_def)

lemma run_append: "run (as @ bs) s = run bs (run as s)"
  by (simp add: run_def)

lemma init_fields [simp]:
  "calls init = []" "tauriDriver init = None" "console init = []" "kills init = []"
  by (simp_all add: init_def)

lemma upd_call_fields [simp]:
  "tauriDriver (upd_call c f s) = tauriDriver s"
  "console (upd_call c f s) = console s"
  "kills (upd_call c f s) = kills s"
  "length (calls (upd_call c f s)) = length (calls s)"
  by (simp_all add: upd_call_def)

lemma upd_call_nth:
  "d < length (calls s) \<Longrightarrow>
   calls (upd_call c f s) ! d = (if d = c then f (calls s ! c) else calls s ! d)"
  by (simp add: upd_call_def nth_list_update)

lemmas handler_defs = resolve_def reject_def on_def setTimeout_def on_stdout_data_def
  on_stderr_data_def on_error_def on_timeout_def set_exit_def

lemma length_calls_emit [simp]: "length (calls (emit c ev s)) = length (calls s)"
  by (cases ev) (simp_all add: emit_def handler_defs Let_def)

lemma length_calls_fire_timer [simp]: "length (calls (fire_timer c s)) = length (calls s)"
  by (simp add: fire_timer_def handler_defs)

lemma onComplete_calls [simp]: "calls (onComplete s) = calls s"
  by (simp add: onComplete_def split: option.splits)

lemma length_calls_onPrepare [simp]: "length (calls (onPrepare r s)) = Suc (length (calls s))"
  by (cases r) (simp_all add: onPrepare_def handler_defs Let_def)

lemma length_calls_step: "length (calls s) \<le> length (calls (step a s))"
  by (cases a) simp_all

lemma lt_step: "c < length (calls s) \<Longrightarrow> c < length (calls (step a s))"
  using length_calls_step [of s a] by simp

lemma length_calls_run: "length (calls s) \<le> length (calls (run as s))"
proof (induction as arbitrary: s)
  case Nil
  show ?case by simp
next
  case (Cons a as)
  have "length (calls s) \<le> length (calls (step a s))" by (rule length_calls_step)
  also have "\<dots> \<le> length (calls (run as (step a s)))" by (rule Cons.IH)
  finally show ?case by simp
qed

text \<open>\<^verbatim>\<open>onPrepare\<close> leaves the entries of the earlier calls alone and adds one.\<close>

lemma onPrepare_old:
  "c < length (calls s) \<Longrightarrow> calls (onPrepare r s) ! c = calls s ! c"
  by (cases r) (simp_all add: onPrepare_def handler_defs Let_def upd_call_def nth_append)

lemma onPrepare_new:
  "calls (onPrepare (Spawned p) s) ! length (calls s) =
     \<lparr>promise = Pending, spawned = True, has_process = p, exit_code = None,
      listeners = [stdout_data, stderr_data, error], timer = Some 30000\<rparr>"
  by (simp add: onPrepare_def handler_defs Let_def upd_call_def new_call_def)

lemma onPrepare_new_threw:
  "calls (onPrepare (SpawnThrew e) s) ! length (calls s) =
     \<lparr>promise = Rejected e, spawned = False, has_process = False, exit_code = None, listeners = [], timer = None\<rparr>"
  by (simp add: onPrepare_def handler_defs Let_def upd_call_def new_call_def)

subsection \<open>One turn, seen from one call\<close>

lemma step_spawned:
  "c < length (calls s) \<Longrightarrow> spawned (calls (step a s) ! c) = spawned (calls s ! c)"
  apply (cases a)
  subgoal for r by (simp add: onPrepare_old)
  subgoal by simp
  subgoal for d ev by (cases ev) (auto simp: emit_def handler_defs Let_def upd_call_nth)
  subgoal for d by (auto simp: fire_timer_def handler_defs upd_call_nth)
  done

lemma step_listeners:
  "c < length (calls s) \<Longrightarrow> listeners (calls (step a s) ! c) = listeners (calls s ! c)"
  apply (cases a)
  subgoal for r by (simp add: onPrepare_old)
  subgoal by simp
  subgoal for d ev by (cases ev) (auto simp: emit_def handler_defs Let_def upd_call_nth)
  subgoal for d by (auto simp: fire_timer_def handler_defs upd_call_nth)
  done

lemma step_timer:
  "c < length (calls s) \<Longrightarrow>
   timer (calls (step a s) ! c) = (if a = TimerFire c then None else timer (calls s ! c))"
  apply (cases a)
  subgoal for r by (simp add: onPrepare_old)
  subgoal by simp
  subgoal for d ev by (cases ev) (auto simp: emit_def handler_defs Let_def upd_call_nth)
  subgoal for d by (auto simp: fire_timer_def handler_defs upd_call_nth)
  done

text \<open>A settled promise is not changed by any turn.\<close>

lemma step_settled:
  "c < length (calls s) \<Longrightarrow> promise (calls s ! c) \<noteq> Pending \<Longrightarrow>
   promise (calls (step a s) ! c) = promise (calls s ! c)"
  apply (cases a)
  subgoal for r by (simp add: onPrepare_old)
  subgoal by simp
  subgoal for d ev
    by (cases ev; cases "promise (calls s ! c)")
       (auto simp: emit_def handler_defs Let_def upd_call_nth)
  subgoal for d
    by (cases "promise (calls s ! c)") (auto simp: fire_timer_def handler_defs upd_call_nth)
  done

text \<open>
  Only three turns touch the promise of call \<open>c\<close>: a marker chunk of its child, an
  \<^verbatim>\<open>'error'\<close> of its child, its timer.
\<close>

lemma step_quiet:
  "c < length (calls s) \<Longrightarrow> \<not> ready_chunk c a \<Longrightarrow> \<not> error_event c a \<Longrightarrow> a \<noteq> TimerFire c \<Longrightarrow>
   promise (calls (step a s) ! c) = promise (calls s ! c)"
  apply (cases a)
  subgoal for r by (simp add: onPrepare_old)
  subgoal by simp
  subgoal for d ev by (cases ev) (auto simp: emit_def handler_defs Let_def upd_call_nth)
  subgoal for d by (auto simp: fire_timer_def handler_defs upd_call_nth)
  done

lemma step_no_reject:
  "c < length (calls s) \<Longrightarrow> \<not> error_event c a \<Longrightarrow> a \<noteq> TimerFire c \<Longrightarrow>
   promise (calls s ! c) = Pending \<or> promise (calls s ! c) = Fulfilled \<Longrightarrow>
   promise (calls (step a s) ! c) = Pending \<or> promise (calls (step a s) ! c) = Fulfilled"
  apply (cases a)
  subgoal for r by (simp add: onPrepare_old)
  subgoal by simp
  subgoal for d ev by (cases ev) (auto simp: emit_def handler_defs Let_def upd_call_nth)
  subgoal for d by (auto simp: fire_timer_def handler_defs upd_call_nth)
  done

lemma marker_step:
  "c < length (calls s) \<Longrightarrow> spawned (calls s ! c) \<Longrightarrow>
   stdout_data \<in> set (listeners (calls s ! c)) \<Longrightarrow> str_includes output ''Listening on'' \<Longrightarrow>
   promise (calls (step (Emit c (StdoutData output)) s) ! c) = resolve_promise (promise (calls s ! c))"
  by (simp add: emit_def handler_defs upd_call_nth)

lemma timer_step:
  "c < length (calls s) \<Longrightarrow> timer (calls s ! c) \<noteq> None \<Longrightarrow>
   promise (calls (step (TimerFire c) s) ! c) =
     reject_promise (Error ''tauri-driver startup timeout'') (promise (calls s ! c))"
  by (simp add: fire_timer_def handler_defs upd_call_nth)

lemma exit_step:
  "c < length (calls s) \<Longrightarrow> spawned (calls s ! c) \<Longrightarrow>
   exit_code (calls (step (Emit c (Exit n)) s) ! c) \<noteq> None"
  by (simp add: emit_def handler_defs upd_call_nth Let_def)

lemma error_step:
  "c < length (calls s) \<Longrightarrow> spawned (calls s ! c) \<Longrightarrow>
   error \<in> set (listeners (calls s ! c)) \<Longrightarrow>
   promise (calls (step (Emit c (ErrorEvent e)) s) ! c) = reject_promise e (promise (calls s ! c))"
  by (simp add: emit_def handler_defs upd_call_nth)

lemma stderr_step_console:
  "c < length (calls s) \<Longrightarrow> spawned (calls s ! c) \<Longrightarrow>
   stderr_data \<in> set (listeners (calls s ! c)) \<Longrightarrow>
   console (step (Emit c (StderrData output)) s)
     = console s @ [console_error [Str ''[tauri-driver]'', Str output]]"
  by (simp add: emit_def handler_defs)

text \<open>The listener on standard output does nothing with a chunk that lacks the marker.\<close>

lemma plain_chunk_step:
  "\<not> str_includes chunk ''Listening on'' \<Longrightarrow> emit c (StdoutData chunk) s = s"
  by (simp add: emit_def handler_defs)

subsection \<open>Runs, seen from one call\<close>

lemma run_spawned:
  "c < length (calls s) \<Longrightarrow> spawned (calls (run as s) ! c) = spawned (calls s ! c)"
  by (induction as arbitrary: s) (simp_all add: lt_step step_spawned)

lemma run_listeners:
  "c < length (calls s) \<Longrightarrow> listeners (calls (run as s) ! c) = listeners (calls s ! c)"
  by (induction as arbitrary: s) (simp_all add: lt_step step_listeners)

lemma run_timer:
  "c < length (calls s) \<Longrightarrow>
   timer (calls (run as s) ! c) = (if TimerFire c \<in> set as then None else timer (calls s ! c))"
proof (induction as arbitrary: s)
  case Nil
  then show ?case by simp
next
  case (Cons a as)
  have lt: "c < length (calls (step a s))" using Cons.prems by (rule lt_step)
  have st: "timer (calls (step a s) ! c) = (if a = TimerFire c then None else timer (calls s ! c))"
    using Cons.prems by (rule step_timer)
  have "timer (calls (run (a # as) s) ! c) = timer (calls (run as (step a s)) ! c)" by simp
  also have "\<dots> = (if TimerFire c \<in> set as then None else timer (calls (step a s) ! c))"
    by (rule Cons.IH [OF lt])
  also have "\<dots> = (if TimerFire c \<in> set (a # as) then None else timer (calls s ! c))"
    using st by auto
  finally show ?case .
qed

lemma run_settled:
  "c < length (calls s) \<Longrightarrow> promise (calls s ! c) \<noteq> Pending \<Longrightarrow>
   promise (calls (run as s) ! c) = promise (calls s ! c)"
  by (induction as arbitrary: s) (simp_all add: lt_step step_settled)

lemma run_quiet:
  "c < length (calls s) \<Longrightarrow>
   \<forall>a\<in>set as. \<not> ready_chunk c a \<and> \<not> error_event c a \<and> a \<noteq> TimerFire c \<Longrightarrow>
   promise (calls (run as s) ! c) = promise (calls s ! c)"
  by (induction as arbitrary: s) (simp_all add: lt_step step_quiet)

lemma run_no_reject:
  "c < length (calls s) \<Longrightarrow> \<forall>a\<in>set as. \<not> error_event c a \<and> a \<noteq> TimerFire c \<Longrightarrow>
   promise (calls s ! c) = Pending \<or> promise (calls s ! c) = Fulfilled \<Longrightarrow>
   promise (calls (run as s) ! c) = Pending \<or> promise (calls (run as s) ! c) = Fulfilled"
proof (induction as arbitrary: s)
  case Nil
  then show ?case by simp
next
  case (Cons a as)
  have lt: "c < length (calls (step a s))" using Cons.prems(1) by (rule lt_step)
  have "promise (calls (step a s) ! c) = Pending \<or> promise (calls (step a s) ! c) = Fulfilled"
    using Cons.prems by (intro step_no_reject) simp_all
  from Cons.IH [OF lt _ this] show ?case using Cons.prems(2) by simp
qed

text \<open>
  After \<^verbatim>\<open>onPrepare\<close> has spawned its child, the new call keeps its child and its three
  listeners through every run.
\<close>

lemma started_wired:
  "spawned (calls (run as (onPrepare (Spawned p) s)) ! length (calls s))"
  "listeners (calls (run as (onPrepare (Spawned p) s)) ! length (calls s))
     = [stdout_data, stderr_data, error]"
  "length (calls s) < length (calls (run as (onPrepare (Spawned p) s)))"
proof -
  have lt: "length (calls s) < length (calls (onPrepare (Spawned p) s))" by simp
  show "spawned (calls (run as (onPrepare (Spawned p) s)) ! length (calls s))"
    by (simp add: run_spawned [OF lt] onPrepare_new)
  show "listeners (calls (run as (onPrepare (Spawned p) s)) ! length (calls s))
          = [stdout_data, stderr_data, error]"
    by (simp add: run_listeners [OF lt] onPrepare_new)
  show "length (calls s) < length (calls (run as (onPrepare (Spawned p) s)))"
    using length_calls_run [of "onPrepare (Spawned p) s" as] by simp
qed

text \<open>
  While neither a marker chunk nor an \<^verbatim>\<open>'error'\<close> of the child arrives and the timer
  has not fired, the promise is pending and the timer is armed; the timer then
  rejects it.
\<close>

lemma started_quiet:
  assumes q: "\<forall>a\<in>set as. \<not> ready_chunk (length (calls s)) a
                \<and> \<not> error_event (length (calls s)) a \<and> a \<noteq> TimerFire (length (calls s))"
  shows "promise (calls (run as (onPrepare (Spawned p) s)) ! length (calls s)) = Pending"
    and "timer (calls (run as (onPrepare (Spawned p) s)) ! length (calls s)) = Some 30000"
    and "promise (calls (fire_timer (length (calls s)) (run as (onPrepare (Spawned p) s)))
                   ! length (calls s))
           = Rejected (Error ''tauri-driver startup timeout'')"
proof -
  let ?c = "length (calls s)"
  let ?s0 = "onPrepare (Spawned p) s"
  let ?s1 = "run as ?s0"
  have lt0: "?c < length (calls ?s0)" by simp
  show p: "promise (calls ?s1 ! ?c) = Pending"
    using run_quiet [OF lt0 q] by (simp add: onPrepare_new)
  have "TimerFire ?c \<notin> set as" using q by auto
  then show t: "timer (calls ?s1 ! ?c) = Some 30000"
    using run_timer [OF lt0, of as] by (simp add: onPrepare_new)
  have "promise (calls (step (TimerFire ?c) ?s1) ! ?c)
          = reject_promise (Error ''tauri-driver startup timeout'') (promise (calls ?s1 ! ?c))"
    by (rule timer_step) (simp_all add: started_wired t)
  then show "promise (calls (fire_timer ?c ?s1) ! ?c)
               = Rejected (Error ''tauri-driver startup timeout'')"
    using p by simp
qed

subsection \<open>The console is written and never read\<close>

lemma onPrepare_calls:
  "calls (onPrepare (Spawned p) s) = calls s @
     [\<lparr>promise = Pending, spawned = True, has_process = p, exit_code = None,
       listeners = [stdout_data, stderr_data, error], timer = Some 30000\<rparr>]"
  "calls (onPrepare (SpawnThrew e) s) = calls s @
     [\<lparr>promise = Rejected e, spawned = False, has_process = False, exit_code = None, listeners = [], timer = None\<rparr>]"
  by (simp_all add: onPrepare_def handler_defs Let_def upd_call_def new_call_def)

lemma onPrepare_fields:
  "console (onPrepare r s) = console s" "kills (onPrepare r s) = kills s"
  "tauriDriver (onPrepare (Spawned p) s) = Some (length (calls s))"
  "tauriDriver (onPrepare (SpawnThrew e) s) = tauriDriver s"
  by (cases r; simp add: onPrepare_def handler_defs Let_def)+

lemma step_console_blind:
  assumes "tauriDriver s = tauriDriver s'" "calls s = calls s'" "kills s = kills s'"
  shows "tauriDriver (step a s) = tauriDriver (step a s')
       \<and> calls (step a s) = calls (step a s') \<and> kills (step a s) = kills (step a s')"
proof (cases a)
  case (Start r)
  then show ?thesis using assms
    by (cases r) (simp_all add: onPrepare_def handler_defs Let_def upd_call_def)
next
  case Stop
  then show ?thesis using assms by (simp add: onComplete_def split: option.splits)
next
  case (Emit d ev)
  then show ?thesis using assms
    by (cases ev) (simp_all add: emit_def handler_defs Let_def upd_call_def)
next
  case (TimerFire d)
  then show ?thesis using assms by (auto simp: fire_timer_def handler_defs upd_call_def)
qed

lemma step_stderr:
  "stderr_chunk a \<Longrightarrow>
   tauriDriver (step a s) = tauriDriver s \<and> calls (step a s) = calls s \<and> kills (step a s) = kills s"
  by (cases a rule: stderr_chunk.cases) (simp_all add: emit_def handler_defs Let_def)

lemma run_drop_stderr:
  assumes "tauriDriver s = tauriDriver s'" "calls s = calls s'" "kills s = kills s'"
  shows "tauriDriver (run as s) = tauriDriver (run (filter (\<lambda>a. \<not> stderr_chunk a) as) s')
       \<and> calls (run as s) = calls (run (filter (\<lambda>a. \<not> stderr_chunk a) as) s')
       \<and> kills (run as s) = kills (run (filter (\<lambda>a. \<not> stderr_chunk a) as) s')"
  using assms
proof (induction as arbitrary: s s')
  case Nil
  then show ?case by simp
next
  case (Cons a as)
  show ?case
  proof (cases "stderr_chunk a")
    case True
    have "tauriDriver (step a s) = tauriDriver s' \<and> calls (step a s) = calls s'
          \<and> kills (step a s) = kills s'"
      using step_stderr [OF True, of s] Cons.prems by simp
    then show ?thesis using Cons.IH [of "step a s" s'] True by simp
  next
    case False
    have "tauriDriver (step a s) = tauriDriver (step a s') \<and> calls (step a s) = calls (step a s')
          \<and> kills (step a s) = kills (step a s')"
      using Cons.prems by (intro step_console_blind)
    then show ?thesis using Cons.IH [of "step a s" "step a s'"] False by simp
  qed
qed

subsection \<open>Which children \<^verbatim>\<open>onComplete\<close> reaches\<close>

text \<open>
  When the hooks take turns, a child handle for which no exit has been reported and
  to which no \<^verbatim>\<open>kill()\<close> has been sent is the one \<^verbatim>\<open>tauriDriver\<close> holds.
\<close>

lemma step_unexited:
  "c < length (calls s) \<Longrightarrow>
   spawned (calls (step a s) ! c) \<and> exit_code (calls (step a s) ! c) = None \<Longrightarrow>
   spawned (calls s ! c) \<and> exit_code (calls s ! c) = None"
  apply (cases a)
  subgoal for r by (simp add: onPrepare_old)
  subgoal by simp
  subgoal for d ev
    by (cases ev) (auto simp: emit_def handler_defs Let_def upd_call_nth split: if_splits)
  subgoal for d by (auto simp: fire_timer_def handler_defs upd_call_nth split: if_splits)
  done

lemma step_handle:
  "tauriDriver (emit d ev s) = tauriDriver s"
  "tauriDriver (fire_timer d s) = tauriDriver s"
  "kills (emit d ev s) = kills s"
  "kills (fire_timer d s) = kills s"
  by (cases ev; simp add: emit_def fire_timer_def handler_defs Let_def)+

lemma step_held_only:
  assumes J: "\<forall>c<length (calls s).
                spawned (calls s ! c) \<and> exit_code (calls s ! c) = None \<and> c \<notin> set (kills s)
                \<longrightarrow> tauriDriver s = Some c"
    and ok: "(\<exists>p. a = Start (Spawned p)) \<longrightarrow> tauriDriver s = None"
  shows "\<forall>c<length (calls (step a s)).
           spawned (calls (step a s) ! c) \<and> exit_code (calls (step a s) ! c) = None
           \<and> c \<notin> set (kills (step a s))
           \<longrightarrow> tauriDriver (step a s) = Some c"
proof (intro allI impI)
  fix c
  assume lt: "c < length (calls (step a s))"
    and ac: "spawned (calls (step a s) ! c) \<and> exit_code (calls (step a s) ! c) = None
             \<and> c \<notin> set (kills (step a s))"
  show "tauriDriver (step a s) = Some c"
  proof (cases a)
    case (Start r)
    show ?thesis
    proof (cases "c < length (calls s)")
      case True
      then have "spawned (calls s ! c) \<and> exit_code (calls s ! c) = None \<and> c \<notin> set (kills s)"
        using ac Start by (simp add: onPrepare_old onPrepare_fields)
      then have h: "tauriDriver s = Some c" using J True by blast
      then show ?thesis using Start ok by (cases r) (simp_all add: onPrepare_fields)
    next
      case False
      then have c: "c = length (calls s)" using lt Start by simp
      show ?thesis using ac Start c
        by (cases r) (simp_all add: onPrepare_fields onPrepare_new_threw)
    qed
  next
    case Stop
    then have "c < length (calls s)" and "spawned (calls s ! c) \<and> exit_code (calls s ! c) = None"
      using lt ac by simp_all
    moreover have "c \<notin> set (kills s)"
      using ac Stop by (auto simp: onComplete_def split: option.splits)
    ultimately have "tauriDriver s = Some c" using J by blast
    then show ?thesis using ac Stop by (simp add: onComplete_def)
  next
    case (Emit d ev)
    then have l: "c < length (calls s)" using lt by simp
    have "spawned (calls s ! c) \<and> exit_code (calls s ! c) = None"
      using step_unexited [OF l, of a] ac by blast
    then show ?thesis using J l ac Emit by (simp add: step_handle)
  next
    case (TimerFire d)
    then have l: "c < length (calls s)" using lt by simp
    have "spawned (calls s ! c) \<and> exit_code (calls s ! c) = None"
      using step_unexited [OF l, of a] ac by blast
    then show ?thesis using J l ac TimerFire by (simp add: step_handle)
  qed
qed

lemma run_held_only:
  assumes "\<forall>c<length (calls s).
             spawned (calls s ! c) \<and> exit_code (calls s ! c) = None \<and> c \<notin> set (kills s)
             \<longrightarrow> tauriDriver s = Some c"
    and "held = (tauriDriver s \<noteq> None)"
    and "alternating held as"
  shows "\<forall>c<length (calls (run as s)).
           spawned (calls (run as s) ! c) \<and> exit_code (calls (run as s) ! c) = None
           \<and> c \<notin> set (kills (run as s))
           \<longrightarrow> tauriDriver (run as s) = Some c"
  using assms
proof (induction held as arbitrary: s rule: alternating.induct)
  case (1 held)
  then show ?case by simp
next
  case (2 held p as)
  let ?t = "step (Start (Spawned p)) s"
  have "\<forall>c<length (calls ?t).
           spawned (calls ?t ! c) \<and> exit_code (calls ?t ! c) = None \<and> c \<notin> set (kills ?t)
           \<longrightarrow> tauriDriver ?t = Some c"
    using "2.prems" by (intro step_held_only) simp_all
  then show ?case using "2.IH" [of ?t] "2.prems"
    by (simp add: onPrepare_fields)
next
  case (3 held e as)
  let ?t = "step (Start (SpawnThrew e)) s"
  have "\<forall>c<length (calls ?t).
           spawned (calls ?t ! c) \<and> exit_code (calls ?t ! c) = None \<and> c \<notin> set (kills ?t)
           \<longrightarrow> tauriDriver ?t = Some c"
    using "3.prems" by (intro step_held_only) simp_all
  then show ?case using "3.IH" [of ?t] "3.prems"
    by (simp add: onPrepare_fields)
next
  case (4 held as)
  let ?t = "step Stop s"
  have "\<forall>c<length (calls ?t).
           spawned (calls ?t ! c) \<and> exit_code (calls ?t ! c) = None \<and> c \<notin> set (kills ?t)
           \<longrightarrow> tauriDriver ?t = Some c"
    using "4.prems" by (intro step_held_only) simp_all
  moreover have "tauriDriver ?t = None"
    by (simp add: onComplete_def split: option.splits)
  ultimately show ?case using "4.IH" [of ?t] "4.prems" by simp
next
  case (5 held c ev as)
  let ?t = "step (Emit c ev) s"
  have "\<forall>d<length (calls ?t).
           spawned (calls ?t ! d) \<and> exit_code (calls ?t ! d) = None \<and> d \<notin> set (kills ?t)
           \<longrightarrow> tauriDriver ?t = Some d"
    using "5.prems" by (intro step_held_only) simp_all
  then show ?case using "5.IH" [of ?t] "5.prems"
    by (simp add: step_handle)
next
  case (6 held c as)
  let ?t = "step (TimerFire c) s"
  have "\<forall>d<length (calls ?t).
           spawned (calls ?t ! d) \<and> exit_code (calls ?t ! d) = None \<and> d \<notin> set (kills ?t)
           \<longrightarrow> tauriDriver ?t = Some d"
    using "6.prems" by (intro step_held_only) simp_all
  then show ?case using "6.IH" [of ?t] "6.prems"
    by (simp add: step_handle)
qed

lemma kills_onComplete:
  "kills (onComplete s) = (case tauriDriver s of Some p \<Rightarrow> kills s @ [p] | None \<Rightarrow> kills s)"
  by (simp add: onComplete_def split: option.splits)

text \<open>\<open>str_includes\<close> is the substring test.\<close>

lemma str_includes_sublist: "str_includes s sub = sublist sub s"
  by (induction s) (simp_all add: sublist_Cons_right)

section \<open>The claims\<close>

text \<open>
  C1. In every run of \<^verbatim>\<open>onPrepare\<close> where the child writes a standard-output chunk that
  contains \<^verbatim>\<open>Listening on\<close> before the timer of the call has fired and before any
  \<^verbatim>\<open>'error'\<close> event of the child, the returned promise is fulfilled, whatever else
  happens before or after.
\<close>

theorem onPrepare_marker_resolves:
  assumes m: "str_includes chunk ''Listening on''"
    and pre: "\<forall>a\<in>set pre. \<not> error_event (length (calls s)) a \<and> a \<noteq> TimerFire (length (calls s))"
  shows "outcome (run (Start (Spawned p) # pre @ Emit (length (calls s)) (StdoutData chunk) # post) s)
           (length (calls s)) = Fulfilled"
proof -
  let ?c = "length (calls s)"
  let ?s0 = "onPrepare (Spawned p) s"
  let ?s1 = "run pre ?s0"
  let ?s2 = "step (Emit ?c (StdoutData chunk)) ?s1"
  have lt0: "?c < length (calls ?s0)" by simp
  have "promise (calls ?s1 ! ?c) = Pending \<or> promise (calls ?s1 ! ?c) = Fulfilled"
    using lt0 pre by (rule run_no_reject) (simp add: onPrepare_new)
  moreover have "promise (calls ?s2 ! ?c) = resolve_promise (promise (calls ?s1 ! ?c))"
    using m by (intro marker_step) (simp_all add: started_wired)
  ultimately have ful: "promise (calls ?s2 ! ?c) = Fulfilled" by auto
  have lt2: "?c < length (calls ?s2)" by (intro lt_step started_wired)
  have "promise (calls (run post ?s2) ! ?c) = promise (calls ?s2 ! ?c)"
    using lt2 ful by (intro run_settled) simp_all
  then show ?thesis using ful by (simp add: outcome_def run_append)
qed

theorem onPrepare_marker_resolves_witness:
  "str_includes ''Listening on 127.0.0.1:4444'' ''Listening on''
   \<and> outcome (run [Start (Spawned True), Emit 0 (StderrData ''warming up''),
                    Emit 0 (StdoutData ''Listening on 127.0.0.1:4444''), TimerFire 0] init) 0
       = Fulfilled"
proof -
  have m: "str_includes ''Listening on 127.0.0.1:4444'' ''Listening on''" by simp
  have pre: "\<forall>a\<in>set [Emit 0 (StderrData ''warming up'')].
               \<not> error_event (length (calls init)) a \<and> a \<noteq> TimerFire (length (calls init))"
    by simp
  show ?thesis
    using m onPrepare_marker_resolves [OF m pre, of True "[TimerFire 0]"] by simp
qed

text \<open>
  C2. In every run of \<^verbatim>\<open>onPrepare\<close> where no standard-output chunk with the marker and
  no \<^verbatim>\<open>'error'\<close> event of the child arrives before the timer fires, the promise is
  still pending when the timer, armed with a delay of 30000 ms, fires, and that
  rejects it with the timeout error \<^verbatim>\<open>Error('tauri-driver startup timeout')\<close>.
\<close>

theorem onPrepare_timeout_rejects:
  assumes q: "\<forall>a\<in>set as. \<not> ready_chunk (length (calls s)) a
                \<and> \<not> error_event (length (calls s)) a \<and> a \<noteq> TimerFire (length (calls s))"
  shows "outcome (run (Start (Spawned p) # as) s) (length (calls s)) = Pending
       \<and> timer (calls (run (Start (Spawned p) # as) s) ! length (calls s)) = Some 30000
       \<and> outcome (run (Start (Spawned p) # as @ [TimerFire (length (calls s))]) s) (length (calls s))
           = Rejected (Error ''tauri-driver startup timeout'')"
  using started_quiet [OF q] by (simp add: outcome_def run_append)

theorem onPrepare_timeout_rejects_witness:
  "outcome (run [Start (Spawned True), Emit 0 (StdoutData ''booting''), Emit 0 (StderrData ''warn'')] init) 0
     = Pending
   \<and> outcome (run [Start (Spawned True), Emit 0 (StdoutData ''booting''), Emit 0 (StderrData ''warn''),
                    TimerFire 0] init) 0
       = Rejected (Error ''tauri-driver startup timeout'')"
proof -
  have q: "\<forall>a\<in>set [Emit 0 (StdoutData ''booting''), Emit 0 (StderrData ''warn'')].
             \<not> ready_chunk (length (calls init)) a \<and> \<not> error_event (length (calls init)) a
             \<and> a \<noteq> TimerFire (length (calls init))"
    by simp
  show ?thesis using onPrepare_timeout_rejects [OF q, of True] by simp
qed

text \<open>
  C3 (as amended). The code attaches no listener to \<^verbatim>\<open>'exit'\<close>. When the child exits,
  with any code, before a marker chunk, the exit settles nothing. As long as neither
  a marker chunk nor an \<^verbatim>\<open>'error'\<close> event arrives, before or after the exit, the
  promise stays pending until the timer fires, and is then rejected with the
  timeout error, whose message is fixed and holds none of the standard-error text.
  A marker chunk that still arrives after the exit, before the timer and any
  \<^verbatim>\<open>'error'\<close> event, fulfils the promise.
\<close>

theorem exit_before_marker_times_out:
  assumes pre: "\<forall>a\<in>set pre. \<not> ready_chunk (length (calls s)) a
                  \<and> \<not> error_event (length (calls s)) a \<and> a \<noteq> TimerFire (length (calls s))"
      and post: "\<forall>a\<in>set post. \<not> ready_chunk (length (calls s)) a
                  \<and> \<not> error_event (length (calls s)) a \<and> a \<noteq> TimerFire (length (calls s))"
  shows "\<not> alive (calls (run (Start (Spawned p) # pre @ [Emit (length (calls s)) (Exit code)]) s)
                    ! length (calls s))
       \<and> outcome (run (Start (Spawned p) # pre @ [Emit (length (calls s)) (Exit code)]) s)
           (length (calls s)) = Pending
       \<and> outcome (run (Start (Spawned p) # pre @ Emit (length (calls s)) (Exit code) # post) s)
           (length (calls s)) = Pending
       \<and> outcome (run (Start (Spawned p) # pre @ Emit (length (calls s)) (Exit code) # post
                        @ [TimerFire (length (calls s))]) s) (length (calls s))
           = Rejected (Error ''tauri-driver startup timeout'')
       \<and> (str_includes chunk ''Listening on''
            \<longrightarrow> outcome (run (Start (Spawned p) # pre @ Emit (length (calls s)) (Exit code) # post
                               @ Emit (length (calls s)) (StdoutData chunk) # rest) s)
                  (length (calls s)) = Fulfilled)"
proof -
  let ?c = "length (calls s)"
  let ?s2 = "run (pre @ Emit ?c (Exit code) # post) (onPrepare (Spawned p) s)"
  have q1: "\<forall>a\<in>set (pre @ [Emit ?c (Exit code)]).
              \<not> ready_chunk ?c a \<and> \<not> error_event ?c a \<and> a \<noteq> TimerFire ?c"
    using pre by simp
  have q2: "\<forall>a\<in>set (pre @ Emit ?c (Exit code) # post).
              \<not> ready_chunk ?c a \<and> \<not> error_event ?c a \<and> a \<noteq> TimerFire ?c"
    using pre post by auto
  have "exit_code (calls (step (Emit ?c (Exit code)) (run pre (onPrepare (Spawned p) s))) ! ?c)
          \<noteq> None"
    by (rule exit_step) (simp_all add: started_wired)
  then have a: "\<not> alive (calls (run (Start (Spawned p) # pre @ [Emit ?c (Exit code)]) s) ! ?c)"
    by (simp add: alive_def run_append)
  have p2: "promise (calls ?s2 ! ?c) = Pending" by (rule started_quiet(1) [OF q2])
  have late: "outcome (run (Start (Spawned p) # pre @ Emit ?c (Exit code) # post
                             @ Emit ?c (StdoutData chunk) # rest) s) ?c = Fulfilled"
    if m: "str_includes chunk ''Listening on''"
  proof -
    let ?s3 = "step (Emit ?c (StdoutData chunk)) ?s2"
    have "promise (calls ?s3 ! ?c) = resolve_promise (promise (calls ?s2 ! ?c))"
      using m by (intro marker_step) (simp_all add: started_wired)
    then have ful: "promise (calls ?s3 ! ?c) = Fulfilled" using p2 by simp
    have "promise (calls (run rest ?s3) ! ?c) = promise (calls ?s3 ! ?c)"
      using ful by (intro run_settled lt_step started_wired) simp
    then have "promise (calls (run rest ?s3) ! ?c) = Fulfilled" using ful by simp
    then have "promise (calls (run ((pre @ Emit ?c (Exit code) # post)
                                     @ Emit ?c (StdoutData chunk) # rest)
                                (onPrepare (Spawned p) s)) ! ?c) = Fulfilled"
      by (simp only: run_append run_Cons)
    then show ?thesis by (simp add: outcome_def)
  qed
  have rest4: "outcome (run (Start (Spawned p) # pre @ [Emit ?c (Exit code)]) s) ?c = Pending
       \<and> outcome (run (Start (Spawned p) # pre @ Emit ?c (Exit code) # post) s) ?c = Pending
       \<and> outcome (run (Start (Spawned p) # pre @ Emit ?c (Exit code) # post @ [TimerFire ?c]) s) ?c
           = Rejected (Error ''tauri-driver startup timeout'')"
    using started_quiet(1) [OF q1] started_quiet(1,3) [OF q2]
    by (simp add: outcome_def run_append)
  show ?thesis using a rest4 late by blast
qed

theorem exit_before_marker_times_out_witness:
  "outcome (run [Start (Spawned True), Emit 0 (StderrData ''port in use''), Emit 0 (Exit 1)] init) 0
     = Pending
   \<and> outcome (run [Start (Spawned True), Emit 0 (StderrData ''port in use''), Emit 0 (Exit 1),
                    TimerFire 0] init) 0
       = Rejected (Error ''tauri-driver startup timeout'')
   \<and> outcome (run [Start (Spawned True), Emit 0 (StderrData ''port in use''), Emit 0 (Exit 1),
                    Emit 0 (StdoutData ''Listening on 127.0.0.1:4444''), TimerFire 0] init) 0
       = Fulfilled"
proof -
  have pre: "\<forall>a\<in>set [Emit 0 (StderrData ''port in use'')].
               \<not> ready_chunk (length (calls init)) a \<and> \<not> error_event (length (calls init)) a
               \<and> a \<noteq> TimerFire (length (calls init))"
    by simp
  have post: "\<forall>a\<in>set []. \<not> ready_chunk (length (calls init)) a
               \<and> \<not> error_event (length (calls init)) a \<and> a \<noteq> TimerFire (length (calls init))"
    by simp
  have m: "str_includes ''Listening on 127.0.0.1:4444'' ''Listening on''" by simp
  show ?thesis
    using m exit_before_marker_times_out [OF pre post, of True 1 "''Listening on 127.0.0.1:4444''"
                                            "[TimerFire 0]"]
    by simp
qed

text \<open>
  C3 as stated fails: the child writes \<^verbatim>\<open>port in use\<close> to standard error and exits
  with code 1, and the promise is not rejected.
\<close>

theorem exit_before_marker_not_rejected:
  "\<not> (\<exists>e. outcome (run [Start (Spawned True), Emit 0 (StderrData ''port in use''), Emit 0 (Exit 1)] init) 0
             = Rejected e)"
proof -
  have "\<forall>a\<in>set [Emit 0 (StderrData ''port in use''), Emit 0 (Exit 1)].
          \<not> ready_chunk (length (calls init)) a \<and> \<not> error_event (length (calls init)) a
          \<and> a \<noteq> TimerFire (length (calls init))"
    by simp
  from started_quiet(1) [OF this] show ?thesis by (simp add: outcome_def)
qed

text \<open>
  C4 (as amended). \<^verbatim>\<open>onPrepare\<close> has no guard. In any state, a call whose spawn returns
  a handle is not rejected: it returns a new pending promise, makes \<^verbatim>\<open>tauriDriver\<close>
  refer to the new child, issues no \<^verbatim>\<open>kill()\<close> and leaves the entries of the earlier
  calls as they were; and when the operating system created the process, there is
  one more process and one more that is alive (none more when the launch failed).
\<close>

theorem onPrepare_again_spawns_again:
  "spawn_count (onPrepare (Spawned p) s) = (if p then Suc (spawn_count s) else spawn_count s)
   \<and> alive_count (onPrepare (Spawned p) s) = (if p then Suc (alive_count s) else alive_count s)
   \<and> outcome (onPrepare (Spawned p) s) (length (calls s)) = Pending
   \<and> tauriDriver (onPrepare (Spawned p) s) = Some (length (calls s))
   \<and> kills (onPrepare (Spawned p) s) = kills s
   \<and> take (length (calls s)) (calls (onPrepare (Spawned p) s)) = calls s"
  by (simp add: spawn_count_def alive_count_def alive_def outcome_def onPrepare_calls
      onPrepare_fields)

text \<open>
  C4 as stated fails: after two calls with no \<^verbatim>\<open>onComplete\<close> between them, each of
  which started its process, the second promise is not rejected, two processes have
  been spawned and both are alive.
\<close>

theorem second_onPrepare_spawns_second_child:
  "\<not> ((\<exists>e. outcome (run [Start (Spawned True), Start (Spawned True)] init) 1 = Rejected e)
       \<and> spawn_count (run [Start (Spawned True), Start (Spawned True)] init) = 1
       \<and> alive_count (run [Start (Spawned True), Start (Spawned True)] init) \<le> 1)"
  by (simp add: spawn_count_def alive_count_def alive_def outcome_def onPrepare_calls)

text \<open>
  C5. Once the promise of a call has settled, no later turn of any kind changes it.
  And the first of a marker chunk, an \<^verbatim>\<open>'error'\<close> event and the timer to arrive after
  \<^verbatim>\<open>onPrepare\<close> decides the outcome, whatever follows.
\<close>

theorem settled_outcome_is_final:
  "(c < length (calls (run as s)) \<and> outcome (run as s) c \<noteq> Pending
      \<longrightarrow> outcome (run (as @ bs) s) c = outcome (run as s) c)
   \<and> ((\<forall>a\<in>set pre. \<not> ready_chunk (length (calls s)) a \<and> \<not> error_event (length (calls s)) a
                     \<and> a \<noteq> TimerFire (length (calls s)))
      \<longrightarrow> (str_includes chunk ''Listening on''
             \<longrightarrow> outcome (run (Start (Spawned p) # pre @ Emit (length (calls s)) (StdoutData chunk) # post) s)
                   (length (calls s)) = Fulfilled)
          \<and> outcome (run (Start (Spawned p) # pre @ Emit (length (calls s)) (ErrorEvent e) # post) s)
              (length (calls s)) = Rejected e
          \<and> outcome (run (Start (Spawned p) # pre @ TimerFire (length (calls s)) # post) s)
              (length (calls s)) = Rejected (Error ''tauri-driver startup timeout''))"
proof (intro conjI impI)
  assume "c < length (calls (run as s)) \<and> outcome (run as s) c \<noteq> Pending"
  then show "outcome (run (as @ bs) s) c = outcome (run as s) c"
    by (simp add: outcome_def run_append run_settled)
next
  let ?c = "length (calls s)"
  let ?s1 = "run pre (onPrepare (Spawned p) s)"
  assume q: "\<forall>a\<in>set pre. \<not> ready_chunk ?c a \<and> \<not> error_event ?c a \<and> a \<noteq> TimerFire ?c"
  have p: "promise (calls ?s1 ! ?c) = Pending" by (rule started_quiet(1) [OF q])
  have final: "promise (calls (run post (step a ?s1)) ! ?c) = promise (calls (step a ?s1) ! ?c)"
    if "promise (calls (step a ?s1) ! ?c) \<noteq> Pending" for a
    using that by (intro run_settled lt_step started_wired)
  {
    assume m: "str_includes chunk ''Listening on''"
    have "promise (calls (step (Emit ?c (StdoutData chunk)) ?s1) ! ?c)
            = resolve_promise (promise (calls ?s1 ! ?c))"
      using m by (intro marker_step) (simp_all add: started_wired)
    then have "promise (calls (step (Emit ?c (StdoutData chunk)) ?s1) ! ?c) = Fulfilled"
      using p by simp
    then have "promise (calls (run post (step (Emit ?c (StdoutData chunk)) ?s1)) ! ?c) = Fulfilled"
      using final [of "Emit ?c (StdoutData chunk)"] by simp
    then show "outcome (run (Start (Spawned p) # pre @ Emit ?c (StdoutData chunk) # post) s) ?c
                 = Fulfilled"
      by (simp add: outcome_def run_append)
  }
  {
    have "promise (calls (step (Emit ?c (ErrorEvent e)) ?s1) ! ?c)
            = reject_promise e (promise (calls ?s1 ! ?c))"
      by (intro error_step) (simp_all add: started_wired)
    then have "promise (calls (step (Emit ?c (ErrorEvent e)) ?s1) ! ?c) = Rejected e"
      using p by simp
    then have "promise (calls (run post (step (Emit ?c (ErrorEvent e)) ?s1)) ! ?c) = Rejected e"
      using final [of "Emit ?c (ErrorEvent e)"] by simp
    then show "outcome (run (Start (Spawned p) # pre @ Emit ?c (ErrorEvent e) # post) s) ?c
                 = Rejected e"
      by (simp add: outcome_def run_append)
  }
  {
    have "promise (calls (step (TimerFire ?c) ?s1) ! ?c)
            = Rejected (Error ''tauri-driver startup timeout'')"
      using started_quiet(3) [OF q] by simp
    then have "promise (calls (run post (step (TimerFire ?c) ?s1)) ! ?c)
                 = Rejected (Error ''tauri-driver startup timeout'')"
      using final [of "TimerFire ?c"] by simp
    then show "outcome (run (Start (Spawned p) # pre @ TimerFire ?c # post) s) ?c
                 = Rejected (Error ''tauri-driver startup timeout'')"
      by (simp add: outcome_def run_append)
  }
qed

theorem settled_outcome_is_final_witness:
  "outcome (run ([Start (Spawned True), TimerFire 0] @ [Emit 0 (StdoutData ''Listening on 127.0.0.1:4444'')]) init) 0
     = Rejected (Error ''tauri-driver startup timeout'')
   \<and> outcome (run [Start (Spawned True), Emit 0 (StderrData ''warn''),
                    Emit 0 (StdoutData ''Listening on 127.0.0.1:4444''), TimerFire 0] init) 0
       = Fulfilled
   \<and> outcome (run [Start (Spawned True), Emit 0 (StderrData ''warn''),
                    Emit 0 (ErrorEvent (Error ''spawn tauri-driver ENOENT'')), TimerFire 0] init) 0
       = Rejected (Error ''spawn tauri-driver ENOENT'')
   \<and> outcome (run [Start (Spawned True), Emit 0 (StderrData ''warn''), TimerFire 0, TimerFire 0] init) 0
       = Rejected (Error ''tauri-driver startup timeout'')"
proof -
  have q0: "\<forall>a\<in>set []. \<not> ready_chunk (length (calls init)) a
              \<and> \<not> error_event (length (calls init)) a \<and> a \<noteq> TimerFire (length (calls init))"
    by simp
  have q1: "\<forall>a\<in>set [Emit 0 (StderrData ''warn'')]. \<not> ready_chunk (length (calls init)) a
              \<and> \<not> error_event (length (calls init)) a \<and> a \<noteq> TimerFire (length (calls init))"
    by simp
  have m: "str_includes ''Listening on 127.0.0.1:4444'' ''Listening on''" by simp
  have t: "outcome (run [Start (Spawned True), TimerFire 0] init) 0
             = Rejected (Error ''tauri-driver startup timeout'')"
    using q0 settled_outcome_is_final [of 0 "[]" init "[]" "[]" "''''" True "[]" "Error ''''"]
    by simp
  have l: "0 < length (calls (run [Start (Spawned True), TimerFire 0] init))" by simp
  show ?thesis
    using q1 m t l
      settled_outcome_is_final [of 0 "[Start (Spawned True), TimerFire 0]" init
        "[Emit 0 (StdoutData ''Listening on 127.0.0.1:4444'')]" "[Emit 0 (StderrData ''warn'')]"
        "''Listening on 127.0.0.1:4444''" True "[TimerFire 0]" "Error ''spawn tauri-driver ENOENT''"]
    by simp
qed

text \<open>
  C6. \<^verbatim>\<open>onComplete\<close> can be called in any state. It has no failing branch; if
  \<^verbatim>\<open>tauriDriver\<close> holds a child it issues one \<^verbatim>\<open>kill()\<close> to that child before it returns,
  and otherwise none; afterwards \<^verbatim>\<open>tauriDriver\<close> is null; promises and console are
  untouched; a second call in a row changes nothing, so it kills nothing. When the
  hooks take turns (before any \<^verbatim>\<open>onPrepare\<close>, after one that succeeded or failed, after
  earlier \<^verbatim>\<open>onComplete\<close>s), every child handle for which no exit has been reported, and
  so every child that is alive, has been sent a \<^verbatim>\<open>kill()\<close> once \<^verbatim>\<open>onComplete\<close> returns.
\<close>

theorem onComplete_idempotent:
  "tauriDriver (onComplete s) = None
   \<and> kills (onComplete s) = (case tauriDriver s of Some p \<Rightarrow> kills s @ [p] | None \<Rightarrow> kills s)
   \<and> calls (onComplete s) = calls s
   \<and> console (onComplete s) = console s
   \<and> onComplete (onComplete s) = onComplete s
   \<and> tauriDriver (run (as @ [Stop]) s) = None
   \<and> run (as @ [Stop, Stop]) s = run (as @ [Stop]) s
   \<and> (alternating False ls \<and> c < length (calls (run ls init))
        \<and> spawned (calls (run ls init) ! c) \<and> exit_code (calls (run ls init) ! c) = None
        \<longrightarrow> c \<in> set (kills (run (ls @ [Stop]) init)))
   \<and> (alternating False ls \<and> c < length (calls (run ls init)) \<and> alive (calls (run ls init) ! c)
        \<longrightarrow> c \<in> set (kills (run (ls @ [Stop]) init)))"
proof -
  have 1: "tauriDriver (onComplete t) = None" for t
    by (simp add: onComplete_def split: option.splits)
  have 2: "onComplete (onComplete t) = onComplete t" for t
    by (simp add: onComplete_def split: option.splits)
  have 4: "console (onComplete s) = console s"
    by (simp add: onComplete_def split: option.splits)
  have 5: "c \<in> set (kills (run (ls @ [Stop]) init))"
    if a: "alternating False ls" and l: "c < length (calls (run ls init))"
      and al: "spawned (calls (run ls init) ! c) \<and> exit_code (calls (run ls init) ! c) = None"
  proof (cases "c \<in> set (kills (run ls init))")
    case True
    then show ?thesis by (simp add: run_append kills_onComplete split: option.splits)
  next
    case False
    have "\<forall>c<length (calls (run ls init)).
           spawned (calls (run ls init) ! c) \<and> exit_code (calls (run ls init) ! c) = None
           \<and> c \<notin> set (kills (run ls init))
           \<longrightarrow> tauriDriver (run ls init) = Some c"
      using a by (intro run_held_only [of init False]) simp_all
    then have "tauriDriver (run ls init) = Some c" using l al False by blast
    then show ?thesis by (simp add: run_append kills_onComplete)
  qed
  have 6: "c \<in> set (kills (run (ls @ [Stop]) init))"
    if "alternating False ls" and "c < length (calls (run ls init))"
      and "alive (calls (run ls init) ! c)"
    using that 5 by (simp add: alive_def)
  show ?thesis using 1 2 4 5 6 by (simp add: run_append kills_onComplete)
qed

theorem onComplete_idempotent_witness:
  "alternating False [Start (Spawned True), Emit 0 (StdoutData ''Listening on 127.0.0.1:4444'')]
   \<and> alive (calls (run [Start (Spawned True),
                         Emit 0 (StdoutData ''Listening on 127.0.0.1:4444'')] init) ! 0)
   \<and> 0 \<in> set (kills (run ([Start (Spawned True),
                             Emit 0 (StdoutData ''Listening on 127.0.0.1:4444'')] @ [Stop]) init))"
proof -
  let ?ls = "[Start (Spawned True), Emit 0 (StdoutData ''Listening on 127.0.0.1:4444'')]"
  have a: "alternating False ?ls"
    by simp
  have l: "0 < length (calls (run ?ls init))"
    by simp
  have al: "alive (calls (run ?ls init) ! 0)"
    by (simp add: alive_def emit_def handler_defs onPrepare_calls upd_call_def Let_def)
  have un: "spawned (calls (run ?ls init) ! 0) \<and> exit_code (calls (run ?ls init) ! 0) = None"
    using al by (simp add: alive_def)
  show ?thesis
    using a l al un onComplete_idempotent [of init "[]" ?ls 0]
    by blast
qed

text \<open>
  C7 (as amended). The code calls neither \<^verbatim>\<open>clearTimeout\<close> nor \<^verbatim>\<open>off\<close>. Through every
  run after \<^verbatim>\<open>onPrepare\<close>, settled or not, the three listeners of the call stay
  attached to its child, and its timer stays armed with 30000 ms until the turn in
  which it fires.
\<close>

theorem listeners_and_timer_stay:
  "listeners (calls (run (Start (Spawned p) # as) s) ! length (calls s))
     = [stdout_data, stderr_data, error]
   \<and> timer (calls (run (Start (Spawned p) # as) s) ! length (calls s))
       = (if TimerFire (length (calls s)) \<in> set as then None else Some 30000)"
proof -
  have lt: "length (calls s) < length (calls (onPrepare (Spawned p) s))" by simp
  show ?thesis using run_timer [OF lt, of as] by (simp add: started_wired onPrepare_new)
qed

text \<open>
  C7 as stated fails: the marker chunk has fulfilled the promise, and the timer is
  still armed and the listeners are still attached.
\<close>

theorem timer_armed_after_ready:
  "outcome (run [Start (Spawned True), Emit 0 (StdoutData ''Listening on 127.0.0.1:4444'')] init) 0
     = Fulfilled
   \<and> timer (calls (run [Start (Spawned True), Emit 0 (StdoutData ''Listening on 127.0.0.1:4444'')] init) ! 0)
       = Some 30000
   \<and> listeners (calls (run [Start (Spawned True), Emit 0 (StdoutData ''Listening on 127.0.0.1:4444'')] init) ! 0)
       = [stdout_data, stderr_data, error]"
  by (simp add: outcome_def emit_def handler_defs onPrepare_calls upd_call_def Let_def)

text \<open>
  C8 (as amended). A standard-output chunk that does not contain the marker is
  dropped: its turn leaves the whole state as it was, so nothing is written to the
  console and no promise changes, and a run with the chunk ends in the same state
  as the run without it.
\<close>

theorem plain_stdout_chunk_dropped:
  assumes "\<not> str_includes chunk ''Listening on''"
  shows "step (Emit c (StdoutData chunk)) s = s
       \<and> run (as @ Emit c (StdoutData chunk) # bs) s = run (as @ bs) s"
  using assms by (simp add: plain_chunk_step run_append)

theorem plain_stdout_chunk_dropped_witness:
  "\<not> str_includes ''starting up'' ''Listening on''
   \<and> run ([Start (Spawned True)] @ Emit 0 (StdoutData ''starting up'') # [TimerFire 0]) init
       = run ([Start (Spawned True)] @ [TimerFire 0]) init"
proof -
  have n: "\<not> str_includes ''starting up'' ''Listening on''" by simp
  show ?thesis
    using n plain_stdout_chunk_dropped [OF n, of 0 init "[Start (Spawned True)]" "[TimerFire 0]"]
    by blast
qed

text \<open>
  C8 as stated fails: after a standard-output chunk without the marker the console
  has received nothing.
\<close>

theorem plain_stdout_chunk_not_logged:
  "\<not> str_includes ''starting up'' ''Listening on''
   \<and> console (run [Start (Spawned True), Emit 0 (StdoutData ''starting up'')] init) = []"
  by (simp add: plain_chunk_step onPrepare_fields)

text \<open>
  C9. Two runs that differ only in their standard-error chunks end with the same
  promises, the same \<^verbatim>\<open>tauriDriver\<close> and the same \<^verbatim>\<open>kill()\<close> requests. And every
  standard-error chunk of a child spawned by \<^verbatim>\<open>onPrepare\<close> is written to the console
  by \<^verbatim>\<open>console.error\<close>, after the prefix \<^verbatim>\<open>[tauri-driver]\<close>.
\<close>

theorem stderr_forwarded_not_inspected:
  assumes "filter (\<lambda>a. \<not> stderr_chunk a) as = filter (\<lambda>a. \<not> stderr_chunk a) bs"
  shows "(\<forall>c. outcome (run as s) c = outcome (run bs s) c)
       \<and> tauriDriver (run as s) = tauriDriver (run bs s)
       \<and> kills (run as s) = kills (run bs s)
       \<and> console (step (Emit (length (calls s)) (StderrData chunk)) (run (Start (Spawned p) # cs) s))
           = console (run (Start (Spawned p) # cs) s)
             @ [console_error [Str ''[tauri-driver]'', Str chunk]]"
proof -
  have a: "tauriDriver (run as s) = tauriDriver (run (filter (\<lambda>a. \<not> stderr_chunk a) as) s)
       \<and> calls (run as s) = calls (run (filter (\<lambda>a. \<not> stderr_chunk a) as) s)
       \<and> kills (run as s) = kills (run (filter (\<lambda>a. \<not> stderr_chunk a) as) s)"
    by (rule run_drop_stderr) simp_all
  have b: "tauriDriver (run bs s) = tauriDriver (run (filter (\<lambda>a. \<not> stderr_chunk a) bs) s)
       \<and> calls (run bs s) = calls (run (filter (\<lambda>a. \<not> stderr_chunk a) bs) s)
       \<and> kills (run bs s) = kills (run (filter (\<lambda>a. \<not> stderr_chunk a) bs) s)"
    by (rule run_drop_stderr) simp_all
  have "console (step (Emit (length (calls s)) (StderrData chunk)) (run cs (onPrepare (Spawned p) s)))
          = console (run cs (onPrepare (Spawned p) s))
            @ [console_error [Str ''[tauri-driver]'', Str chunk]]"
    by (rule stderr_step_console) (simp_all add: started_wired)
  then show ?thesis using a b assms by (simp add: outcome_def)
qed

theorem stderr_forwarded_not_inspected_witness:
  "outcome (run [Start (Spawned True), Emit 0 (StderrData ''Listening on''), TimerFire 0] init) 0
     = outcome (run [Start (Spawned True), TimerFire 0, Emit 0 (StderrData ''port in use'')] init) 0
   \<and> console (run [Start (Spawned True), Emit 0 (StderrData ''port in use'')] init)
       = [console_error [Str ''[tauri-driver]'', Str ''port in use'']]"
proof -
  have f: "filter (\<lambda>a. \<not> stderr_chunk a)
             [Start (Spawned True), Emit 0 (StderrData ''Listening on''), TimerFire 0]
         = filter (\<lambda>a. \<not> stderr_chunk a)
             [Start (Spawned True), TimerFire 0, Emit 0 (StderrData ''port in use'')]"
    by simp
  note t = stderr_forwarded_not_inspected [OF f, of init "''port in use''" True "[]"]
  have "outcome (run [Start (Spawned True), Emit 0 (StderrData ''Listening on''), TimerFire 0] init) 0
     = outcome (run [Start (Spawned True), TimerFire 0, Emit 0 (StderrData ''port in use'')] init) 0"
    using t by blast
  moreover have "console (run [Start (Spawned True), Emit 0 (StderrData ''port in use'')] init)
       = [console_error [Str ''[tauri-driver]'', Str ''port in use'']]"
    using t by (simp add: onPrepare_fields)
  ultimately show ?thesis by simp
qed

text \<open>
  C10. The marker is looked for in each chunk on its own. The chunks
  \<^verbatim>\<open>Listening \<close> and \<^verbatim>\<open>on 127.0.0.1:4444\<close> together contain \<^verbatim>\<open>Listening on\<close> and neither
  does alone; after \<^verbatim>\<open>onPrepare\<close> and these two chunks the promise is still pending,
  and the timer then rejects it with the timeout error.
\<close>

theorem marker_split_across_chunks_missed:
  "str_includes (''Listening '' @ ''on 127.0.0.1:4444'') ''Listening on''
   \<and> \<not> str_includes ''Listening '' ''Listening on''
   \<and> \<not> str_includes ''on 127.0.0.1:4444'' ''Listening on''
   \<and> outcome (run [Start (Spawned p), Emit (length (calls s)) (StdoutData ''Listening ''),
                    Emit (length (calls s)) (StdoutData ''on 127.0.0.1:4444'')] s) (length (calls s))
       = Pending
   \<and> outcome (run [Start (Spawned p), Emit (length (calls s)) (StdoutData ''Listening ''),
                    Emit (length (calls s)) (StdoutData ''on 127.0.0.1:4444''),
                    TimerFire (length (calls s))] s) (length (calls s))
       = Rejected (Error ''tauri-driver startup timeout'')"
proof -
  have c1: "\<not> str_includes ''Listening '' ''Listening on''" by simp
  have c2: "\<not> str_includes ''on 127.0.0.1:4444'' ''Listening on''" by simp
  have c3: "str_includes (''Listening '' @ ''on 127.0.0.1:4444'') ''Listening on''" by simp
  have q: "\<forall>a\<in>set [Emit (length (calls s)) (StdoutData ''Listening ''),
                     Emit (length (calls s)) (StdoutData ''on 127.0.0.1:4444'')].
          \<not> ready_chunk (length (calls s)) a \<and> \<not> error_event (length (calls s)) a
          \<and> a \<noteq> TimerFire (length (calls s))"
    using c1 c2 by simp
  show ?thesis
    using c1 c2 c3 started_quiet(1,3) [OF q] by (simp add: outcome_def)
qed

end
